theory Spec2Isabelle
  imports Main "HOL-Library.Word"
begin

unbundle bit_operations_syntax

section \<open>Dual UART sniffer: data model\<close>

text \<open>
  Two sketches share most of their code: \<^verbatim>\<open>mega.ino\<close> (Arduino Mega, one hardware UART
  per channel, the dedicated-receiver variant) and the ESP8266 sketch (two SoftwareSerial
  ports of which one listens at a time, the shared-receiver variant). Definitions that are
  the same in both files are given once; where the two differ the ESP8266 one carries the
  suffix \<open>_esp\<close>.

  Machine integers are words of the width the source declares. Every call of
  \<^verbatim>\<open>millis()\<close> is an explicit argument of the function that makes it, and the text a
  function writes to \<^verbatim>\<open>Serial\<close> is returned as a string. The functions of the ESP8266
  sketch that call the receivers return the list of their actions, prints and receiver
  calls, in the order in which they happen.
\<close>

type_synonym uint8_t = "8 word"
type_synonym uint16_t = "16 word"
type_synonym uint32_t = "32 word"

definition FRAME_GAP_MS :: uint16_t where
  "FRAME_GAP_MS = 25"


definition BUFLEN :: uint16_t where
  "BUFLEN = 128"

definition START_MOTOR :: uint8_t where
  "START_MOTOR = 0x43"

definition LEN_MOTOR :: uint8_t where
  "LEN_MOTOR = 9"

definition START_LCD :: uint8_t where
  "START_LCD = 0x59"

definition LEN_LCD :: uint8_t where
  "LEN_LCD = 7"

record ChanState =
  buf :: "uint8_t list"
  pos :: uint16_t
  overflow :: bool
  lastByteMs :: uint32_t

text \<open>
  \<^verbatim>\<open>buf\<close> is the array \<^verbatim>\<open>uint8_t buf[BUFLEN]\<close>: a list that has \<open>BUFLEN\<close> cells in
  every state the sketch can reach, of which the first \<open>pos\<close> hold the frame so far.
\<close>

definition chan_ok :: "ChanState \<Rightarrow> bool" where
  "chan_ok ch = (length (buf ch) = unat BUFLEN \<and> pos ch \<le> BUFLEN)"

definition frame_bytes :: "ChanState \<Rightarrow> uint8_t list" where
  "frame_bytes ch = take (unat (pos ch)) (buf ch)"

section \<open>Buffer operations\<close>

text \<open>
  \<^verbatim>\<open>chk8_add\<close>: the operands are promoted to the 16-bit \<^verbatim>\<open>int\<close> of the AVR, added,
  masked with \<^verbatim>\<open>0xFF\<close> and cast back to a byte.
\<close>

definition chk8_add :: "uint8_t \<Rightarrow> uint8_t \<Rightarrow> uint8_t" where
  "chk8_add bval cval = ucast (((ucast bval :: 16 word) + ucast cval) AND 0xFF)"

definition bufClear :: "ChanState \<Rightarrow> ChanState" where
  "bufClear ch = ch\<lparr>pos := 0, overflow := False\<rparr>"

definition bufAdd :: "ChanState \<Rightarrow> uint8_t \<Rightarrow> uint32_t \<Rightarrow> ChanState" where
  "bufAdd ch b now =
     (if pos ch < BUFLEN
      then ch\<lparr>buf := (buf ch)[unat (pos ch) := b], pos := pos ch + 1\<rparr>
      else ch\<lparr>overflow := True\<rparr>)
     \<lparr>lastByteMs := now\<rparr>"

section \<open>Known-packet scanner\<close>

text \<open>
  The cast \<^verbatim>\<open>(int16_t)i\<close> of the offset that \<^verbatim>\<open>findPacket\<close> returns.
\<close>

definition int16_of :: "nat \<Rightarrow> int" where
  "int16_of i = sint (word_of_nat i :: 16 word)"

text \<open>
  The inner loop of \<^verbatim>\<open>findPacket\<close>: \<^verbatim>\<open>chk\<close> starts at 0 and takes the bytes
  \<^verbatim>\<open>buf[i + ii]\<close> for \<^verbatim>\<open>ii = 0 .. len - 2\<close> in that order.
\<close>

definition packet_chk :: "ChanState \<Rightarrow> nat \<Rightarrow> uint8_t \<Rightarrow> uint8_t" where
  "packet_chk ch i len =
     fold (\<lambda>ii chk. chk8_add (buf ch ! (i + ii)) chk) [0 ..< unat len - 1] 0"

text \<open>
  The outer loop, from offset \<open>i\<close> on. The counter \<^verbatim>\<open>i\<close> is a \<^verbatim>\<open>uint16_t\<close> and
  \<^verbatim>\<open>i + len\<close> a 16-bit sum; with \<open>pos \<le> BUFLEN = 128\<close> and \<open>len \<le> 255\<close> the sum stays
  below \<open>2 ^ 16\<close>, so the counter is a natural number here.
\<close>

function findPacket_loop :: "ChanState \<Rightarrow> uint8_t \<Rightarrow> uint8_t \<Rightarrow> nat \<Rightarrow> int" where
  "findPacket_loop ch start len i =
     (if i + unat len \<le> unat (pos ch)
      then (if buf ch ! i = start \<and> packet_chk ch i len = buf ch ! (i + unat len - 1)
            then int16_of i
            else findPacket_loop ch start len (Suc i))
      else - 1)"
  by pat_completeness auto
termination
  by (relation "measure (\<lambda>(ch, start, len, i). Suc (unat (pos ch)) - (i + unat len))") auto

definition findPacket :: "ChanState \<Rightarrow> uint8_t \<Rightarrow> uint8_t \<Rightarrow> int" where
  "findPacket ch start len =
     (if len < 2 \<or> pos ch < ucast len then - 1 else findPacket_loop ch start len 0)"

text \<open>
  What the scanner looks for, in the words of the specification: offset \<open>i\<close> of the
  byte sequence \<open>xs\<close> starts a packet of total length \<open>L\<close> with start byte \<open>S\<close> when the
  packet fits, its first byte is \<open>S\<close>, and the sum of its first \<open>L - 1\<close> bytes modulo 256
  is its last byte.
\<close>

definition packet_at :: "uint8_t list \<Rightarrow> uint8_t \<Rightarrow> nat \<Rightarrow> nat \<Rightarrow> bool" where
  "packet_at xs S L i =
     (i + L \<le> length xs \<and> xs ! i = S \<and>
      sum_list (map unat (take (L - 1) (drop i xs))) mod 256 = unat (xs ! (i + L - 1)))"

section \<open>Writing to Serial\<close>

text \<open>
  \<^verbatim>\<open>Serial.println\<close> ends the line with carriage return and line feed.
\<close>

definition CRLF :: string where
  "CRLF = [CHR 0x0D, CHR 0x0A]"

text \<open>
  \<^verbatim>\<open>Print::printNumber\<close> of the Arduino core, which every \<^verbatim>\<open>Serial.print\<close> of an
  integer ends in: a base below 2 counts as 10, the digits come out of a do-while loop
  that divides by the base until the number is 0, the digits above 9 are capital letters.
\<close>

definition digit_char :: "nat \<Rightarrow> char" where
  "digit_char c = (if c < 10 then char_of (c + 48) else char_of (c + 55))"

function printNumber :: "nat \<Rightarrow> nat \<Rightarrow> string" where
  "printNumber n base =
     (let b = (if base < 2 then 10 else base)
      in (if n div b = 0 then [] else printNumber (n div b) base) @ [digit_char (n mod b)])"
  by pat_completeness auto
termination
proof (relation "measure fst")
  fix n base b :: nat
  assume b: "b = (if base < 2 then 10 else base)" and n: "n div b \<noteq> 0"
  have "1 < b"
    using b by (simp split: if_splits)
  moreover have "0 < n"
    using n by (cases "n = 0") simp_all
  ultimately have "n div b < n"
    by (rule div_less_dividend)
  then show "((n div b, base), (n, base)) \<in> measure fst"
    by simp
qed simp

text \<open>
  \<^verbatim>\<open>Serial.print\<close> of a signed integer in base 10 (the offset \<^verbatim>\<open>p\<close> of a known packet).
\<close>

definition print_long :: "int \<Rightarrow> string" where
  "print_long n = (if n < 0 then CHR ''-'' # printNumber (nat (- n)) 10 else printNumber (nat n) 10)"

definition printHex2 :: "uint8_t \<Rightarrow> string" where
  "printHex2 b = (if b < 0x10 then ''0'' else []) @ printNumber (unat b) 16"

text \<open>
  The dump loop of \<^verbatim>\<open>printBufferFrame\<close> and \<^verbatim>\<open>printFrame\<close>, from index \<open>i\<close> on.
\<close>

function dump_loop :: "ChanState \<Rightarrow> nat \<Rightarrow> string" where
  "dump_loop ch i =
     (if i < unat (pos ch)
      then printHex2 (buf ch ! i) @ '' '' @ (if (i + 1) mod 16 = 0 then CRLF else [])
           @ dump_loop ch (Suc i)
      else [])"
  by pat_completeness auto
termination
  by (relation "measure (\<lambda>(ch, i). unat (pos ch) - i)") auto

definition printBufferFrame :: "string \<Rightarrow> ChanState \<Rightarrow> string" where
  "printBufferFrame tag ch =
     tag @ '' frame ('' @ printNumber (unat (pos ch)) 10 @ '' bytes''
     @ (if overflow ch then '', OVERFLOW'' else []) @ ''):'' @ CRLF
     @ dump_loop ch 0 @ CRLF"

text \<open>
  \<^verbatim>\<open>printFrame\<close> of the ESP8266 sketch prints the frame and clears the buffer itself.
\<close>

definition printFrame :: "string \<Rightarrow> ChanState \<Rightarrow> ChanState \<times> string" where
  "printFrame tag ch =
     (bufClear ch,
      tag @ '' frame ('' @ printNumber (unat (pos ch)) 10
      @ (if overflow ch then '', OVERFLOW'' else []) @ ''):'' @ CRLF
      @ dump_loop ch 0 @ CRLF)"

text \<open>
  \<^verbatim>\<open>tag[0]\<close> of a C string: the terminating NUL when the string is empty.
\<close>

definition tag0 :: "string \<Rightarrow> char" where
  "tag0 tag = (case tag of [] \<Rightarrow> CHR 0x00 | c # _ \<Rightarrow> c)"

text \<open>
  The two blocks of \<^verbatim>\<open>printKnownPacketsIfAny\<close>, for the motor and for the LCD packet,
  differ in the name printed, the start byte and the length only; \<open>printKnown\<close> is that
  block.
\<close>

definition printKnown :: "string \<Rightarrow> ChanState \<Rightarrow> uint8_t \<Rightarrow> uint8_t \<Rightarrow> string" where
  "printKnown name ch start len =
     (let p = findPacket ch start len
      in if 0 \<le> p
         then ''KNOWN '' @ name @ '' packet @'' @ print_long p @ '': ''
              @ concat (map (\<lambda>i. printHex2 (buf ch ! (nat p + i)) @ '' '') [0 ..< unat len])
              @ CRLF
         else [])"

definition printKnownPacketsIfAny :: "string \<Rightarrow> ChanState \<Rightarrow> string" where
  "printKnownPacketsIfAny tag ch =
     (if tag0 tag = CHR ''M'' then printKnown ''Motor'' ch START_MOTOR LEN_MOTOR else [])
     @ (if tag0 tag = CHR ''L'' then printKnown ''LCD'' ch START_LCD LEN_LCD else [])"

section \<open>Silence-gap segmentation\<close>

definition maybeFlushOnGap :: "ChanState \<Rightarrow> string \<Rightarrow> uint32_t \<Rightarrow> ChanState \<times> string" where
  "maybeFlushOnGap ch tag now =
     (if pos ch = 0 then (ch, [])
      else if ucast FRAME_GAP_MS \<le> now - lastByteMs ch
      then (let out1 = printBufferFrame tag ch;
                out2 = printKnownPacketsIfAny tag ch;
                ch' = bufClear ch
            in (ch', out1 @ out2))
      else (ch, []))"

definition checkFlush :: "ChanState \<Rightarrow> string \<Rightarrow> uint32_t \<Rightarrow> ChanState \<times> string" where
  "checkFlush ch tag now =
     (if pos ch = 0 then (ch, [])
      else if ucast FRAME_GAP_MS \<le> now - lastByteMs ch then printFrame tag ch
      else (ch, []))"


section \<open>Arduino strings\<close>

text \<open>
  The methods of the Arduino \<^verbatim>\<open>String\<close> class that \<^verbatim>\<open>handleCommandLine\<close> calls.
  \<^verbatim>\<open>toInt\<close> is C's \<^verbatim>\<open>atol\<close>: white space, an optional sign, then decimal digits up
  to the first other character; no digits give 0. The result is a \<^verbatim>\<open>long\<close> of 32 bits.
\<close>

definition isspace :: "char \<Rightarrow> bool" where
  "isspace c = (c \<in> set [CHR 0x20, CHR 0x09, CHR 0x0A, CHR 0x0B, CHR 0x0C, CHR 0x0D])"

definition trim :: "string \<Rightarrow> string" where
  "trim s = rev (dropWhile isspace (rev (dropWhile isspace s)))"

definition toupper :: "char \<Rightarrow> char" where
  "toupper c = (let n = (of_char c :: nat) in if 97 \<le> n \<and> n \<le> 122 then char_of (n - 32) else c)"

definition tolower :: "char \<Rightarrow> char" where
  "tolower c = (let n = (of_char c :: nat) in if 65 \<le> n \<and> n \<le> 90 then char_of (n + 32) else c)"

definition toUpperCase :: "string \<Rightarrow> string" where
  "toUpperCase s = map toupper s"

definition toLowerCase :: "string \<Rightarrow> string" where
  "toLowerCase s = map tolower s"

definition startsWith :: "string \<Rightarrow> string \<Rightarrow> bool" where
  "startsWith s prefix = (take (length prefix) s = prefix)"

definition substring :: "string \<Rightarrow> nat \<Rightarrow> string" where
  "substring s left = drop left s"

fun atol_digits :: "string \<Rightarrow> int \<Rightarrow> int" where
  "atol_digits [] acc = acc"
| "atol_digits (c # cs) acc =
     (let n = (of_char c :: nat)
      in if 48 \<le> n \<and> n \<le> 57 then atol_digits cs (acc * 10 + int (n - 48)) else acc)"

definition atol :: "string \<Rightarrow> int" where
  "atol s =
     (case dropWhile isspace s of
        [] \<Rightarrow> 0
      | c # cs \<Rightarrow>
          if c = CHR ''-'' then - atol_digits cs 0
          else if c = CHR ''+'' then atol_digits cs 0
          else atol_digits (c # cs) 0)"

definition toInt :: "string \<Rightarrow> 32 word" where
  "toInt s = word_of_int (atol s)"

section \<open>The sketches' global state\<close>

text \<open>
  The globals both sketches declare. \<open>line\<close> is the \<^verbatim>\<open>static String line\<close> of
  \<^verbatim>\<open>pollPCCommands\<close>.
\<close>

record Sketch =
  sniffBaud :: uint32_t
  debugBytes :: bool
  chM :: ChanState
  chL :: ChanState
  line :: string

text \<open>
  \<^verbatim>\<open>mega.ino\<close>: the hardware UARTs \<^verbatim>\<open>Serial2\<close> and \<^verbatim>\<open>Serial3\<close>, each running at a
  baud rate after \<^verbatim>\<open>begin\<close> or stopped after \<^verbatim>\<open>end\<close>.
\<close>

record Mega = Sketch +
  Serial2 :: "uint32_t option"
  Serial3 :: "uint32_t option"

text \<open>
  Modelled from the spec: the receiver class \<^verbatim>\<open>SoftwareSerial\<close> of the ESP8266 sketch is
  a library class that is not in the repository. The specification's shared receiver is
  receivable only while its channel is the active one, and the sketch says of its two
  ports that only one can listen at a time: \<^verbatim>\<open>listen\<close> makes a port the listening one
  and the other port stop listening, and \<^verbatim>\<open>isListening\<close> reads the flag. What
  \<^verbatim>\<open>begin\<close> and \<^verbatim>\<open>end\<close> do to the two ports, their listening flags included, is said
  nowhere: it is a parameter of the model, the \<open>receiver_lib\<close>.
\<close>

record SoftwareSerial =
  ss_baud :: "uint32_t option"
  listening :: bool

datatype port = PortM | PortL

type_synonym ports = "SoftwareSerial \<times> SoftwareSerial"

record receiver_lib =
  lib_begin :: "port \<Rightarrow> uint32_t \<Rightarrow> ports \<Rightarrow> ports"
  lib_end :: "port \<Rightarrow> ports \<Rightarrow> ports"

record Esp = Sketch +
  lastSwitchMs :: uint32_t
  SoftM :: SoftwareSerial
  SoftL :: SoftwareSerial

definition isListening :: "port \<Rightarrow> Esp \<Rightarrow> bool" where
  "isListening p st = (case p of PortM \<Rightarrow> listening (SoftM st) | PortL \<Rightarrow> listening (SoftL st))"

definition listen :: "port \<Rightarrow> Esp \<Rightarrow> Esp" where
  "listen p st =
     st\<lparr>SoftM := (SoftM st)\<lparr>listening := (p = PortM)\<rparr>,
        SoftL := (SoftL st)\<lparr>listening := (p = PortL)\<rparr>\<rparr>"

definition ss_begin :: "receiver_lib \<Rightarrow> port \<Rightarrow> uint32_t \<Rightarrow> Esp \<Rightarrow> Esp" where
  "ss_begin lib p baud st =
     (let (m, l) = lib_begin lib p baud (SoftM st, SoftL st) in st\<lparr>SoftM := m, SoftL := l\<rparr>)"

definition ss_end :: "receiver_lib \<Rightarrow> port \<Rightarrow> Esp \<Rightarrow> Esp" where
  "ss_end lib p st =
     (let (m, l) = lib_end lib p (SoftM st, SoftL st) in st\<lparr>SoftM := m, SoftL := l\<rparr>)"

text \<open>
  What the ESP8266 sketch does to the outside, in the order in which it does it: text
  written to \<^verbatim>\<open>Serial\<close> and calls on the two receivers. \<open>say\<close> is a print that
  may be empty, \<open>printed\<close> the text of a trace.
\<close>

datatype action = Print string | Begin port uint32_t | End port | Listen port


fun printed :: "action list \<Rightarrow> string" where
  "printed [] = []"
| "printed (Print s # acts) = s @ printed acts"
| "printed (Begin p baud # acts) = printed acts"
| "printed (End p # acts) = printed acts"
| "printed (Listen p # acts) = printed acts"


definition active :: "Esp \<Rightarrow> port" where
  "active st = (if isListening PortM st then PortM else PortL)"

section \<open>Commands\<close>

definition setDebug :: "bool \<Rightarrow> 'a Sketch_scheme \<Rightarrow> 'a Sketch_scheme \<times> string" where
  "setDebug on st =
     (let st1 = st\<lparr>debugBytes := on\<rparr>
      in (st1, ''OK Debug bytes = '' @ (if debugBytes st1 then ''true'' else ''false'') @ CRLF))"

definition true_tokens :: "string list" where
  "true_tokens = [''true'', [CHR 0x22] @ ''true'' @ [CHR 0x22], ''1'', ''on'']"

definition false_tokens :: "string list" where
  "false_tokens = [''false'', [CHR 0x22] @ ''false'' @ [CHR 0x22], ''0'', ''off'']"

subsection \<open>mega.ino\<close>

definition applySniffBaud :: "uint32_t \<Rightarrow> Mega \<Rightarrow> Mega \<times> string" where
  "applySniffBaud newBaud st =
     (let st1 = st\<lparr>sniffBaud := newBaud\<rparr>;
          st2 = st1\<lparr>Serial2 := None\<rparr>;
          st3 = st2\<lparr>Serial3 := None\<rparr>;
          st4 = st3\<lparr>Serial2 := Some (sniffBaud st3)\<rparr>;
          st5 = st4\<lparr>Serial3 := Some (sniffBaud st4)\<rparr>
      in (st5, ''OK Baud set to '' @ printNumber (unat (sniffBaud st5)) 10 @ CRLF))"

definition handleCommandLine :: "string \<Rightarrow> Mega \<Rightarrow> Mega \<times> string" where
  "handleCommandLine line0 st =
     (let line1 = trim line0
      in if length line1 = 0 then (st, [])
         else let u = toUpperCase line1
         in if startsWith u ''B=''
            then (let num = trim (substring line1 2);
                      b = toInt num
                  in if sint b \<le> 0
                     then (st, ''ERR Invalid baud. Example: B=9600'' @ CRLF)
                     else applySniffBaud b st)
            else if startsWith u ''D=''
            then (let val = toLowerCase (trim (substring line1 2))
                  in if val \<in> set true_tokens then setDebug True st
                     else if val \<in> set false_tokens then setDebug False st
                     else (st, ''ERR Invalid D. Use D=true or D=false'' @ CRLF))
            else (st, ''ERR Unknown command: '' @ line1 @ CRLF
                      @ ''Commands: B=9600 | D=true | D=false'' @ CRLF))"

subsection \<open>The ESP8266 sketch\<close>

definition restartSoftSerial :: "receiver_lib \<Rightarrow> Esp \<Rightarrow> Esp \<times> action list" where
  "restartSoftSerial lib st =
     (let st1 = ss_end lib PortM st;
          st2 = ss_end lib PortL st1;
          st3 = ss_begin lib PortM (sniffBaud st2) st2;
          st4 = ss_begin lib PortL (sniffBaud st3) st3;
          p = (if isListening PortM st4 then PortM else PortL)
      in (listen p st4,
          [End PortM, End PortL, Begin PortM (sniffBaud st2), Begin PortL (sniffBaud st3),
           Listen p]))"

definition applySniffBaud_esp :: "receiver_lib \<Rightarrow> uint32_t \<Rightarrow> Esp \<Rightarrow> Esp \<times> action list" where
  "applySniffBaud_esp lib b st =
     (if b = 0 then (st, [Print (''ERR Invalid baud. Example: B=9600'' @ CRLF)])
      else let st1 = st\<lparr>sniffBaud := b\<rparr>;
               (st2, acts) = restartSoftSerial lib st1
           in (st2, acts @ [Print (''OK Baud = '' @ printNumber (unat (sniffBaud st2)) 10 @ CRLF)]))"

definition handleCommandLine_esp :: "receiver_lib \<Rightarrow> string \<Rightarrow> Esp \<Rightarrow> Esp \<times> action list" where
  "handleCommandLine_esp lib line0 st =
     (let line1 = trim line0
      in if length line1 = 0 then (st, [])
         else let u = toUpperCase line1
         in if startsWith u ''B=''
            then (let num = trim (substring line1 2)
                  in applySniffBaud_esp lib (toInt num) st)
            else if startsWith u ''D=''
            then (let val = toLowerCase (trim (substring line1 2))
                  in if val \<in> set true_tokens
                     then (let (st1, out) = setDebug True st in (st1, [Print out]))
                     else if val \<in> set false_tokens
                     then (let (st1, out) = setDebug False st in (st1, [Print out]))
                     else (st, [Print (''ERR Use D=true or D=false'' @ CRLF)]))
            else (st, [Print (''ERR Unknown command.'' @ CRLF
                              @ ''Commands: B=9600 | D=true | D=false'' @ CRLF)]))"








section \<open>The frame format in closed form\<close>

text \<open>
  The documented dump format: every byte as two hexadecimal digits followed by a space,
  and a line break after every sixteenth byte.
\<close>

definition hex2 :: "uint8_t \<Rightarrow> string" where
  "hex2 b = [digit_char (unat b div 16), digit_char (unat b mod 16)]"

definition hex_dump :: "uint8_t list \<Rightarrow> string" where
  "hex_dump xs =
     concat (map (\<lambda>i. hex2 (xs ! i) @ '' '' @ (if (i + 1) mod 16 = 0 then CRLF else []))
       [0 ..< length xs])"

section \<open>One channel over time\<close>

text \<open>
  What happens to one channel, in order: \<open>Byte b t\<close> is a call of \<^verbatim>\<open>bufAdd\<close> with the
  byte \<open>b\<close> at time \<open>t\<close> (in milliseconds since the start), \<open>Poll t\<close> a call of the gap
  check at time \<open>t\<close>. \<^verbatim>\<open>millis()\<close> is the time modulo \<open>2 ^ 32\<close>.
\<close>

datatype event = Byte uint8_t nat | Poll nat

definition millis :: "nat \<Rightarrow> uint32_t" where
  "millis t = word_of_nat t"

text \<open>
  \<open>feed flush tag es ch\<close> runs the events \<open>es\<close> on the channel \<open>ch\<close> with the gap check
  \<open>flush\<close> (\<^verbatim>\<open>maybeFlushOnGap\<close> or \<^verbatim>\<open>checkFlush\<close>) and collects what is printed.
\<close>

fun feed :: "(ChanState \<Rightarrow> string \<Rightarrow> uint32_t \<Rightarrow> ChanState \<times> string) \<Rightarrow> string
    \<Rightarrow> event list \<Rightarrow> ChanState \<Rightarrow> ChanState \<times> string" where
  "feed flush tag [] ch = (ch, [])"
| "feed flush tag (Byte b t # es) ch = feed flush tag es (bufAdd ch b (millis t))"
| "feed flush tag (Poll t # es) ch =
     (let (ch1, out1) = flush ch tag (millis t);
          (ch2, out2) = feed flush tag es ch1
      in (ch2, out1 @ out2))"

text \<open>
  The bytes delivered by a list of events, the time of the last byte (\<open>t0\<close> when there
  is none), and the channel after the \<^verbatim>\<open>bufAdd\<close> calls alone.
\<close>

fun bytes_of :: "event list \<Rightarrow> uint8_t list" where
  "bytes_of [] = []"
| "bytes_of (Byte b t # es) = b # bytes_of es"
| "bytes_of (Poll t # es) = bytes_of es"

fun last_byte_time :: "nat \<Rightarrow> event list \<Rightarrow> nat" where
  "last_byte_time t0 [] = t0"
| "last_byte_time t0 (Byte b t # es) = last_byte_time t es"
| "last_byte_time t0 (Poll t # es) = last_byte_time t0 es"

text \<open>
  \<open>burst t0 es\<close>: every event of \<open>es\<close> comes less than \<open>FRAME_GAP_MS\<close> after the byte
  before it, the first events after a byte at time \<open>t0\<close>.
\<close>

fun burst :: "nat \<Rightarrow> event list \<Rightarrow> bool" where
  "burst t0 [] = True"
| "burst t0 (Byte b t # es) = (t0 \<le> t \<and> t - t0 < unat FRAME_GAP_MS \<and> burst t es)"
| "burst t0 (Poll t # es) = (t0 \<le> t \<and> t - t0 < unat FRAME_GAP_MS \<and> burst t0 es)"

fun add_bytes :: "event list \<Rightarrow> ChanState \<Rightarrow> ChanState" where
  "add_bytes [] ch = ch"
| "add_bytes (Byte b t # es) ch = add_bytes es (bufAdd ch b (millis t))"
| "add_bytes (Poll t # es) ch = add_bytes es ch"

text \<open>
  \<open>ticking b t n\<close>: the byte \<open>b\<close> \<open>n\<close> times, one millisecond apart, after time \<open>t\<close>.
\<close>

fun ticking :: "uint8_t \<Rightarrow> nat \<Rightarrow> nat \<Rightarrow> event list" where
  "ticking b t 0 = []"
| "ticking b t (Suc n) = Byte b (Suc t) # ticking b (Suc t) n"

section \<open>States and inputs used as examples\<close>

text \<open>
  A channel as it is before \<^verbatim>\<open>setup()\<close>: the array zeroed, nothing stored.
\<close>

definition idle_chan :: ChanState where
  "idle_chan = \<lparr>buf = replicate 128 0, pos = 0, overflow = False, lastByteMs = 0\<rparr>"

text \<open>
  Nine bytes in which a four-byte packet with start byte \<open>0x43\<close> begins at offset 1 and
  another one at offset 5.
\<close>

definition two_packets :: ChanState where
  "two_packets =
     \<lparr>buf = [0x00, 0x43, 0x01, 0x02, 0x46, 0x43, 0x00, 0x00, 0x43] @ replicate 119 0,
      pos = 9, overflow = False, lastByteMs = 0\<rparr>"

text \<open>
  The buffer of the specification's scanner example: \<open>0x58 = (1+2+3+4+5+6+0x43) mod 256\<close>.
\<close>

definition scan_example :: ChanState where
  "scan_example =
     \<lparr>buf = [0x00, 0x43, 0x01, 0x02, 0x03, 0x04, 0x05, 0x06, 0x58] @ replicate 119 0,
      pos = 9, overflow = False, lastByteMs = 0\<rparr>"

text \<open>
  A channel in the middle of a frame: three bytes stored, the last one at time 100.
\<close>

definition partial_chan :: ChanState where
  "partial_chan =
     \<lparr>buf = [0x01, 0x02, 0x03] @ replicate 125 0,
      pos = 3, overflow = False, lastByteMs = 100\<rparr>"

definition mega_example :: Mega where
  "mega_example =
     \<lparr>sniffBaud = 9600, debugBytes = False, chM = partial_chan, chL = idle_chan, line = [],
      Serial2 = Some 9600, Serial3 = Some 9600\<rparr>"

text \<open>
  The ESP8266 sketch with the LCD port listening and a frame half received on it.
\<close>

definition esp_example :: Esp where
  "esp_example =
     \<lparr>sniffBaud = 9600, debugBytes = False, chM = idle_chan, chL = partial_chan, line = [],
      lastSwitchMs = 0,
      SoftM = \<lparr>ss_baud = Some 9600, listening = False\<rparr>,
      SoftL = \<lparr>ss_baud = Some 9600, listening = True\<rparr>\<rparr>"

text \<open>
  A full channel with the overflow flag set, holding a motor packet at offset 0
  (\<open>0x5F = (0x43+1+2+3+4+5+6+7) mod 256\<close>); the last byte came at time 0.
\<close>

definition overflowed_chan :: ChanState where
  "overflowed_chan =
     \<lparr>buf = [0x43, 0x01, 0x02, 0x03, 0x04, 0x05, 0x06, 0x07, 0x5F] @ replicate 119 0,
      pos = 128, overflow = True, lastByteMs = 0\<rparr>"



text \<open>
  Two behaviours a receiver library can have. In \<open>begin_listens\<close>, \<^verbatim>\<open>begin\<close> sets the
  baud rate and makes its port the listening one, as \<^verbatim>\<open>listen\<close> does, and \<^verbatim>\<open>end\<close>
  stops its port and its listening. In \<open>begin_enables\<close>, \<^verbatim>\<open>begin\<close> sets the baud rate
  and the listening flag of its own port and \<^verbatim>\<open>end\<close> clears both, the other port
  being left alone.
\<close>

definition begin_listens :: receiver_lib where
  "begin_listens =
     \<lparr>lib_begin = (\<lambda>p baud (m, l).
        case p of
          PortM \<Rightarrow> (m\<lparr>ss_baud := Some baud, listening := True\<rparr>, l\<lparr>listening := False\<rparr>)
        | PortL \<Rightarrow> (m\<lparr>listening := False\<rparr>, l\<lparr>ss_baud := Some baud, listening := True\<rparr>)),
      lib_end = (\<lambda>p (m, l).
        case p of
          PortM \<Rightarrow> (m\<lparr>ss_baud := None, listening := False\<rparr>, l)
        | PortL \<Rightarrow> (m, l\<lparr>ss_baud := None, listening := False\<rparr>))\<rparr>"


section \<open>Properties of the buffer operations\<close>

lemma unat_chk8_add: "unat (chk8_add b c) = (unat b + unat c) mod 256"
proof -
  have m: "(0xFF :: 16 word) = mask 8"
    by (simp add: mask_eq_exp_minus_1)
  have b: "unat b < 256" and c: "unat c < 256"
    using unsigned_less [of b, where ?'a = nat] unsigned_less [of c, where ?'a = nat]
    by simp_all
  have ub: "unat (ucast b :: 16 word) = unat b"
    and uc: "unat (ucast c :: 16 word) = unat c"
    using b c by (simp_all add: unsigned_ucast_eq take_bit_eq_mod)
  have s: "unat ((ucast b :: 16 word) + ucast c) = unat b + unat c"
    using b c by (simp add: unat_word_ariths ub uc)
  have "unat (chk8_add b c) = take_bit 8 (take_bit 8 (unat b + unat c))"
    unfolding chk8_add_def m
    by (simp add: unsigned_ucast_eq unsigned_and_eq unsigned_take_bit_eq s
        flip: take_bit_eq_mask)
  then show ?thesis
    by (simp add: take_bit_eq_mod)
qed

lemma chk8_add_plus: "chk8_add b c = b + c"
  by (rule word_unat_eq_iff [THEN iffD2]) (simp add: unat_chk8_add unat_word_ariths)

section \<open>Evaluating the printing functions\<close>

declare printNumber.simps [simp del]
declare dump_loop.simps [simp del]

lemmas printNumber_numeral = printNumber.simps [of "numeral _" "numeral _"]

lemma digit_char_simps:
  "digit_char 0 = CHR ''0''" "digit_char 1 = CHR ''1''" "digit_char (Suc 0) = CHR ''1''"
  "digit_char 2 = CHR ''2''" "digit_char 3 = CHR ''3''" "digit_char 4 = CHR ''4''"
  "digit_char 5 = CHR ''5''" "digit_char 6 = CHR ''6''" "digit_char 7 = CHR ''7''"
  "digit_char 8 = CHR ''8''" "digit_char 9 = CHR ''9''" "digit_char 10 = CHR ''A''"
  "digit_char 11 = CHR ''B''" "digit_char 12 = CHR ''C''" "digit_char 13 = CHR ''D''"
  "digit_char 14 = CHR ''E''" "digit_char 15 = CHR ''F''"
  by code_simp+

section \<open>The known-packet scanner finds the first packet\<close>

declare findPacket_loop.simps [simp del]

lemma chan_ok_bounds:
  "chan_ok ch \<Longrightarrow> unat (pos ch) \<le> length (buf ch) \<and> unat (pos ch) < 32768"
  by (simp add: chan_ok_def BUFLEN_def word_le_nat_alt)

lemma int16_of_small: "i < 32768 \<Longrightarrow> int16_of i = int i"
  unfolding int16_of_def
  by (simp add: signed_of_nat signed_take_bit_int_eq_self)

lemma packet_chk_sum:
  assumes "i + (unat len - 1) \<le> length (buf ch)"
  shows "unat (packet_chk ch i len)
         = sum_list (map unat (take (unat len - 1) (drop i (buf ch)))) mod 256"
proof -
  have gen: "i + n \<le> length (buf ch) \<Longrightarrow>
     unat (fold (\<lambda>ii chk. chk8_add (buf ch ! (i + ii)) chk) [0 ..< n] 0)
       = sum_list (map unat (take n (drop i (buf ch)))) mod 256" for n
  proof (induction n)
    case 0
    then show ?case by simp
  next
    case (Suc n)
    then have ih: "unat (fold (\<lambda>ii chk. chk8_add (buf ch ! (i + ii)) chk) [0 ..< n] 0)
       = sum_list (map unat (take n (drop i (buf ch)))) mod 256"
      by simp
    have tk: "take (Suc n) (drop i (buf ch)) = take n (drop i (buf ch)) @ [buf ch ! (i + n)]"
      using Suc.prems by (simp add: take_Suc_conv_app_nth)
    show ?case
      by (simp add: unat_chk8_add ih tk mod_simps) (simp add: add.commute)
  qed
  show ?thesis
    unfolding packet_chk_def using gen [OF assms] .
qed

lemma code_match_iff:
  assumes "unat (pos ch) \<le> length (buf ch)" and "i + unat len \<le> unat (pos ch)"
    and "2 \<le> unat len"
  shows "(buf ch ! i = S \<and> packet_chk ch i len = buf ch ! (i + unat len - 1))
         \<longleftrightarrow> packet_at (frame_bytes ch) S (unat len) i"
proof -
  have len: "length (frame_bytes ch) = unat (pos ch)"
    using assms(1) by (simp add: frame_bytes_def)
  have i: "frame_bytes ch ! i = buf ch ! i"
    using assms by (simp add: frame_bytes_def)
  have l: "frame_bytes ch ! (i + unat len - 1) = buf ch ! (i + unat len - 1)"
    using assms by (simp add: frame_bytes_def)
  have t: "take (unat len - 1) (drop i (frame_bytes ch))
           = take (unat len - 1) (drop i (buf ch))"
    using assms by (simp add: frame_bytes_def drop_take min_def)
  have c: "unat (packet_chk ch i len)
           = sum_list (map unat (take (unat len - 1) (drop i (buf ch)))) mod 256"
    using assms by (intro packet_chk_sum) simp
  show ?thesis
    unfolding packet_at_def len i l t
    using assms(2) c by (auto simp: word_unat_eq_iff)
qed

lemma findPacket_loop_spec:
  assumes "unat (pos ch) \<le> length (buf ch)" and "unat (pos ch) < 32768"
    and "2 \<le> unat len"
  shows "findPacket_loop ch S len i =
     (if \<exists>k\<ge>i. packet_at (frame_bytes ch) S (unat len) k
      then int (LEAST k. i \<le> k \<and> packet_at (frame_bytes ch) S (unat len) k)
      else - 1)"
  using assms
proof (induction ch S len i rule: findPacket_loop.induct)
  case (1 ch S len i)
  let ?P = "packet_at (frame_bytes ch) S (unat len)"
  have flen: "length (frame_bytes ch) = unat (pos ch)"
    using "1.prems"(1) by (simp add: frame_bytes_def)
  show ?case
  proof (cases "i + unat len \<le> unat (pos ch)")
    case False
    then have "\<not> (\<exists>k\<ge>i. ?P k)"
      by (auto simp: packet_at_def flen)
    with False show ?thesis
      by (subst findPacket_loop.simps) simp
  next
    case fits: True
    note m = code_match_iff [OF "1.prems"(1) fits "1.prems"(3), of S]
    show ?thesis
    proof (cases "?P i")
      case True
      then have "(LEAST k. i \<le> k \<and> ?P k) = i"
        by (intro Least_equality) auto
      moreover have "int16_of i = int i"
        using fits "1.prems"(2) by (intro int16_of_small) simp
      ultimately show ?thesis
        using True fits m by (subst findPacket_loop.simps) auto
    next
      case False
      then have nm: "\<not> (buf ch ! i = S \<and> packet_chk ch i len = buf ch ! (i + unat len - 1))"
        using m by simp
      have shift: "(i \<le> k \<and> ?P k) = (Suc i \<le> k \<and> ?P k)" for k
        using False by (metis Suc_leI le_neq_implies_less Suc_leD)
      have "findPacket_loop ch S len i = findPacket_loop ch S len (Suc i)"
        using fits nm by (subst findPacket_loop.simps) auto
      also have "\<dots> = (if \<exists>k\<ge>Suc i. ?P k then int (LEAST k. Suc i \<le> k \<and> ?P k) else - 1)"
        using "1.IH" [OF fits nm "1.prems"] .
      finally show ?thesis
        by (simp add: shift)
    qed
  qed
qed

lemma findPacket_spec:
  assumes "chan_ok ch" and "2 \<le> len"
  shows "findPacket ch S len =
     (if \<exists>i. packet_at (frame_bytes ch) S (unat len) i
      then int (LEAST i. packet_at (frame_bytes ch) S (unat len) i)
      else - 1)"
proof -
  let ?P = "packet_at (frame_bytes ch) S (unat len)"
  have b: "unat (pos ch) \<le> length (buf ch)" "unat (pos ch) < 32768"
    using chan_ok_bounds [OF assms(1)] by simp_all
  have l: "2 \<le> unat len"
    using assms(2) by (simp add: word_le_nat_alt)
  have flen: "length (frame_bytes ch) = unat (pos ch)"
    using b(1) by (simp add: frame_bytes_def)
  have short: "pos ch < ucast len \<longleftrightarrow> unat (pos ch) < unat len"
    using unsigned_less [of len, where ?'a = nat]
    by (simp add: word_less_nat_alt unsigned_ucast_eq take_bit_eq_mod)
  show ?thesis
  proof (cases "pos ch < ucast len")
    case True
    then have "\<not> (\<exists>i. ?P i)"
      using short by (auto simp: packet_at_def flen)
    with True show ?thesis
      by (simp add: findPacket_def)
  next
    case False
    with assms(2) have "findPacket ch S len = findPacket_loop ch S len 0"
      by (auto simp: findPacket_def)
    then show ?thesis
      using findPacket_loop_spec [OF b l, of S 0] by simp
  qed
qed

lemma chan_ok_two_packets: "chan_ok two_packets"
  by (simp add: chan_ok_def two_packets_def BUFLEN_def)

lemma findPacket_two_packets: "findPacket two_packets 0x43 4 = 1"
  by code_simp

text \<open>
  C1. For every buffer (a channel whose \<open>pos\<close> bytes lie in its \<open>BUFLEN\<close>-byte array) and
  every packet spec with start byte \<open>S\<close> and total length \<open>L \<ge> 2\<close>, \<^verbatim>\<open>findPacket\<close> reports
  the smallest offset \<open>i\<close> with \<open>i + L \<le> len(buffer)\<close>, \<open>buffer[i] = S\<close> and
  \<open>(sum of buffer[i .. i+L-2]) mod 256 = buffer[i+L-1]\<close>: that first match and no later
  one; when no offset matches it reports \<open>-1\<close>, no match.
\<close>

theorem C1_findPacket_first_match:
  assumes "chan_ok ch" and "2 \<le> L"
  shows "findPacket ch S L =
     (if \<exists>i. packet_at (frame_bytes ch) S (unat L) i
      then int (LEAST i. packet_at (frame_bytes ch) S (unat L) i)
      else - 1)"
  using assms by (rule findPacket_spec)

text \<open>
  The theorem at the channel \<open>two_packets\<close>, where packets start at offsets 1 and 5:
  the scan reports 1, the least matching offset.
\<close>

theorem C1_findPacket_first_match_witness:
  "chan_ok two_packets \<and> (2 :: uint8_t) \<le> 4
   \<and> packet_at (frame_bytes two_packets) 0x43 4 5
   \<and> findPacket two_packets 0x43 4 = 1
   \<and> (LEAST i. packet_at (frame_bytes two_packets) 0x43 (unat (4 :: uint8_t)) i) = 1"
proof -
  have ok: "chan_ok two_packets"
    by (rule chan_ok_two_packets)
  have l: "(2 :: uint8_t) \<le> 4"
    by simp
  have p5: "packet_at (frame_bytes two_packets) 0x43 4 5"
    by (simp add: packet_at_def frame_bytes_def two_packets_def)
  then have ex: "\<exists>i. packet_at (frame_bytes two_packets) 0x43 (unat (4 :: uint8_t)) i"
    by auto
  have "int (LEAST i. packet_at (frame_bytes two_packets) 0x43 (unat (4 :: uint8_t)) i) = 1"
    using C1_findPacket_first_match [where S = "0x43", OF ok l] ex findPacket_two_packets
    by (simp del: unsigned_numeral)
  then show ?thesis
    using ok l p5 findPacket_two_packets by simp
qed

text \<open>
  C8 (as amended). The buffer of the specification's example holds nine bytes, so for the
  spec \<open>{start = 0x43, length = 9}\<close> only offset 0 is examined: it fails, byte 0 being
  \<open>0x00\<close>, and \<^verbatim>\<open>findPacket\<close> reports no match, offset 1 leaving room for eight bytes
  only. Those eight bytes are a packet of length 8: with \<open>{start = 0x43, length = 8}\<close> the
  scan reports offset 1.
\<close>

theorem C8_scan_example:
  "(1 + 2 + 3 + 4 + 5 + 6 + 0x43) mod 256 = (0x58 :: nat)
   \<and> frame_bytes scan_example = [0x00, 0x43, 0x01, 0x02, 0x03, 0x04, 0x05, 0x06, 0x58]
   \<and> findPacket scan_example 0x43 9 = - 1
   \<and> findPacket scan_example 0x43 8 = 1
   \<and> take 8 (drop 1 (frame_bytes scan_example))
       = [0x43, 0x01, 0x02, 0x03, 0x04, 0x05, 0x06, 0x58]"
  by (simp add: frame_bytes_def scan_example_def findPacket_def findPacket_loop.simps
      packet_chk_def chk8_add_plus int16_of_def upt_rec [of _ "numeral _"])

text \<open>
  C8 as stated fails: on the nine-byte buffer the scan for \<open>{start = 0x43, length = 9}\<close>
  does not report offset 1.
\<close>

theorem C8_scan_example_counterexample:
  "frame_bytes scan_example = [0x00, 0x43, 0x01, 0x02, 0x03, 0x04, 0x05, 0x06, 0x58]
   \<and> findPacket scan_example 0x43 9 \<noteq> 1"
  by (simp add: frame_bytes_def scan_example_def findPacket_def findPacket_loop.simps)

section \<open>Reconfiguration\<close>

lemma applySniffBaud_chans:
  "chM (fst (applySniffBaud b st)) = chM st \<and> chL (fst (applySniffBaud b st)) = chL st"
  by (simp add: applySniffBaud_def Let_def)

text \<open>
  Whatever the receiver library does, it does to the two ports: the sketch's other
  globals are out of its reach.
\<close>

lemma ss_begin_globals:
  "chM (ss_begin lib p b st) = chM st \<and> chL (ss_begin lib p b st) = chL st
   \<and> sniffBaud (ss_begin lib p b st) = sniffBaud st
   \<and> lastSwitchMs (ss_begin lib p b st) = lastSwitchMs st"
  by (simp add: ss_begin_def case_prod_beta)

lemma ss_end_globals:
  "chM (ss_end lib p st) = chM st \<and> chL (ss_end lib p st) = chL st
   \<and> sniffBaud (ss_end lib p st) = sniffBaud st
   \<and> lastSwitchMs (ss_end lib p st) = lastSwitchMs st"
  by (simp add: ss_end_def case_prod_beta)

lemma listen_globals:
  "chM (listen p st) = chM st \<and> chL (listen p st) = chL st
   \<and> sniffBaud (listen p st) = sniffBaud st
   \<and> lastSwitchMs (listen p st) = lastSwitchMs st"
  by (simp add: listen_def)

lemma restartSoftSerial_globals:
  "chM (fst (restartSoftSerial lib st)) = chM st \<and> chL (fst (restartSoftSerial lib st)) = chL st
   \<and> sniffBaud (fst (restartSoftSerial lib st)) = sniffBaud st
   \<and> lastSwitchMs (fst (restartSoftSerial lib st)) = lastSwitchMs st"
  by (simp add: restartSoftSerial_def Let_def ss_begin_globals ss_end_globals listen_globals)

lemma applySniffBaud_esp_chans:
  "chM (fst (applySniffBaud_esp lib b st)) = chM st
   \<and> chL (fst (applySniffBaud_esp lib b st)) = chL st"
  by (simp add: applySniffBaud_esp_def restartSoftSerial_globals Let_def case_prod_beta)

lemma flush_partial_chan:
  "maybeFlushOnGap partial_chan ''M'' 200
   = (bufClear partial_chan, ''M frame (3 bytes):'' @ CRLF @ ''01 02 03 '' @ CRLF)"
  by (simp add: maybeFlushOnGap_def partial_chan_def FRAME_GAP_MS_def printBufferFrame_def
      printKnownPacketsIfAny_def tag0_def printKnown_def findPacket_def START_MOTOR_def
      LEN_MOTOR_def dump_loop.simps printHex2_def printNumber_numeral
      printNumber.simps [of "Suc 0"] digit_char_simps Let_def)

text \<open>
  C4 (as amended). \<^verbatim>\<open>applySniffBaud\<close> does not touch the channel buffers, in either
  sketch and with any receiver library: after it both channels hold the bytes, the
  length, the overflow flag and the last-activity time they held before, and what
  \<^verbatim>\<open>mega.ino\<close> writes to \<^verbatim>\<open>Serial\<close> is the reply line only. A frame half received at
  the change stays in its buffer.
\<close>

theorem C4_reconfiguration_keeps_buffers:
  "chM (fst (applySniffBaud b st)) = chM st \<and> chL (fst (applySniffBaud b st)) = chL st
   \<and> snd (applySniffBaud b st) = ''OK Baud set to '' @ printNumber (unat b) 10 @ CRLF
   \<and> chM (fst (applySniffBaud_esp lib b st')) = chM st'
   \<and> chL (fst (applySniffBaud_esp lib b st')) = chL st'"
  using applySniffBaud_chans [of b st] applySniffBaud_esp_chans [where lib = lib and b = b and st = st']
  by (simp add: applySniffBaud_def Let_def)

text \<open>
  C4 as stated fails: with three bytes waiting on the motor channel, the channel still
  has length 3 after \<^verbatim>\<open>applySniffBaud\<close>, and the next gap check prints them as a frame;
  the same three bytes survive on the LCD channel of the ESP8266 sketch.
\<close>

theorem C4_reconfiguration_keeps_buffers_counterexample:
  "pos (chM (fst (applySniffBaud 19200 mega_example))) = 3
   \<and> snd (maybeFlushOnGap (chM (fst (applySniffBaud 19200 mega_example))) ''M'' 200)
       = ''M frame (3 bytes):'' @ CRLF @ ''01 02 03 '' @ CRLF
   \<and> pos (chL (fst (applySniffBaud_esp begin_listens 19200 esp_example))) = 3"
proof -
  have m: "chM (fst (applySniffBaud 19200 mega_example)) = partial_chan"
    using applySniffBaud_chans [of 19200 mega_example] by (simp add: mega_example_def)
  have l: "chL (fst (applySniffBaud_esp begin_listens 19200 esp_example)) = partial_chan"
    using applySniffBaud_esp_chans [where lib = begin_listens and b = 19200 and st = esp_example]
    by (simp add: esp_example_def)
  show ?thesis
    unfolding m l flush_partial_chan by (simp add: partial_chan_def)
qed

section \<open>The baud command\<close>

lemma trim_B_minus_1: "trim ''B=-1'' = ''B=-1''"
  by code_simp

lemma startsWith_B_minus_1: "startsWith (toUpperCase ''B=-1'') ''B=''"
  by code_simp

lemma toInt_minus_1: "toInt (trim (substring ''B=-1'' 2)) = 4294967295"
  by code_simp

lemma printNumber_max: "printNumber 4294967295 10 = ''4294967295''"
  by (simp add: printNumber_numeral digit_char_simps Let_def)

lemma printed_restartSoftSerial: "printed (snd (restartSoftSerial lib st)) = []"
  by (simp add: restartSoftSerial_def Let_def)

lemma printed_append: "printed (xs @ ys) = printed xs @ printed ys"
  by (induction xs rule: printed.induct) simp_all

text \<open>
  In \<^verbatim>\<open>mega.ino\<close> a baud command whose number is zero, negative or not a number is
  answered with the error line and changes nothing.
\<close>

lemma handleCommandLine_bad_baud:
  assumes "trim line0 \<noteq> []" and "startsWith (toUpperCase (trim line0)) ''B=''"
    and "sint (toInt (trim (substring (trim line0) 2))) \<le> 0"
  shows "handleCommandLine line0 st = (st, ''ERR Invalid baud. Example: B=9600'' @ CRLF)"
  using assms by (simp add: handleCommandLine_def Let_def)

text \<open>
  C5, the command \<^verbatim>\<open>B=-1\<close>. The ESP8266 sketch casts the parsed number to
  \<^verbatim>\<open>uint32_t\<close> before it tests it against 0: \<open>-1\<close> becomes 4294967295, which is applied
  as the new baud rate and acknowledged, where \<^verbatim>\<open>mega.ino\<close> answers the same command
  with the error line and leaves its state alone.
\<close>

theorem C5_negative_baud_applied_esp:
  "sniffBaud (fst (handleCommandLine_esp lib ''B=-1'' st)) = 4294967295
   \<and> printed (snd (handleCommandLine_esp lib ''B=-1'' st)) = ''OK Baud = 4294967295'' @ CRLF
   \<and> handleCommandLine ''B=-1'' st' = (st', ''ERR Invalid baud. Example: B=9600'' @ CRLF)"
  by (simp add: handleCommandLine_esp_def handleCommandLine_def trim_B_minus_1
      startsWith_B_minus_1 toInt_minus_1 printNumber_max applySniffBaud_esp_def Let_def
      case_prod_beta restartSoftSerial_globals printed_append printed_restartSoftSerial)

section \<open>The listening port across a restart\<close>


lemma active_listen: "active (listen p st) = p"
  by (cases p) (simp_all add: active_def isListening_def listen_def)


text \<open>
  \<^verbatim>\<open>restartSoftSerial\<close> asks \<^verbatim>\<open>isListening\<close> after \<^verbatim>\<open>end\<close> and \<^verbatim>\<open>begin\<close>: the port it
  selects is the one the library has left listening. With a library whose \<^verbatim>\<open>begin\<close>
  and \<^verbatim>\<open>end\<close> leave the listening flags alone that is the port that was active.
\<close>

lemma restartSoftSerial_keeps:
  assumes "\<And>p b ps. listening (fst (lib_begin lib p b ps)) = listening (fst ps)
                  \<and> listening (snd (lib_begin lib p b ps)) = listening (snd ps)"
    and "\<And>p ps. listening (fst (lib_end lib p ps)) = listening (fst ps)
                \<and> listening (snd (lib_end lib p ps)) = listening (snd ps)"
  shows "active (fst (restartSoftSerial lib st)) = active st"
proof -
  have e: "listening (SoftM (ss_end lib p s)) = listening (SoftM s)
           \<and> listening (SoftL (ss_end lib p s)) = listening (SoftL s)" for p s
    using assms(2) [of p "(SoftM s, SoftL s)"] by (simp add: ss_end_def case_prod_beta)
  have b: "listening (SoftM (ss_begin lib p r s)) = listening (SoftM s)
           \<and> listening (SoftL (ss_begin lib p r s)) = listening (SoftL s)" for p r s
    using assms(1) [of p r "(SoftM s, SoftL s)"] by (simp add: ss_begin_def case_prod_beta)
  let ?s2 = "ss_end lib PortL (ss_end lib PortM st)"
  let ?s3 = "ss_begin lib PortM (sniffBaud ?s2) ?s2"
  let ?s4 = "ss_begin lib PortL (sniffBaud ?s3) ?s3"
  have "fst (restartSoftSerial lib st) = listen (active ?s4) ?s4"
    by (simp add: restartSoftSerial_def Let_def active_def)
  moreover have "active ?s4 = active st"
    by (simp add: active_def isListening_def e b)
  ultimately show ?thesis
    by (simp only: active_listen)
qed





section \<open>The frame format\<close>

lemma printHex2_hex2: "printHex2 b = hex2 b"
proof -
  have b: "unat b < 256"
    using unsigned_less [of b, where ?'a = nat] by simp
  have hi: "printNumber (unat b div 16) 16 = [digit_char (unat b div 16)]"
    using b by (subst printNumber.simps) (simp add: Let_def div_less)
  show ?thesis
  proof (cases "b < 0x10")
    case True
    then have "unat b < 16"
      by (simp add: word_less_nat_alt)
    then show ?thesis
      using True
      by (simp add: printHex2_def hex2_def printNumber.simps [of "unat b"] Let_def
          digit_char_simps)
  next
    case False
    then have "16 \<le> unat b"
      by (simp add: word_less_nat_alt not_less)
    then have "unat b div 16 \<noteq> 0"
      by simp
    then show ?thesis
      using False hi
      by (simp add: printHex2_def hex2_def printNumber.simps [of "unat b"] Let_def)
  qed
qed

lemma dump_loop_concat:
  "dump_loop ch i =
     concat (map (\<lambda>j. printHex2 (buf ch ! j) @ '' '' @ (if (j + 1) mod 16 = 0 then CRLF else []))
       [i ..< unat (pos ch)])"
proof (induction ch i rule: dump_loop.induct)
  case (1 ch i)
  show ?case
  proof (cases "i < unat (pos ch)")
    case True
    then show ?thesis
      using "1.IH" by (subst dump_loop.simps) (simp add: upt_conv_Cons)
  next
    case False
    then show ?thesis
      by (subst dump_loop.simps) simp
  qed
qed

lemma dump_loop_hex_dump:
  assumes "unat (pos ch) \<le> length (buf ch)"
  shows "dump_loop ch 0 = hex_dump (frame_bytes ch)"
proof -
  have len: "length (frame_bytes ch) = unat (pos ch)"
    using assms by (simp add: frame_bytes_def)
  show ?thesis
    unfolding dump_loop_concat hex_dump_def len
    by (intro arg_cong [where f = concat] map_cong) (simp_all add: printHex2_hex2 frame_bytes_def)
qed

lemma printBufferFrame_text:
  assumes "chan_ok ch"
  shows "printBufferFrame tag ch =
     tag @ '' frame ('' @ printNumber (length (frame_bytes ch)) 10 @ '' bytes''
     @ (if overflow ch then '', OVERFLOW'' else []) @ ''):'' @ CRLF
     @ hex_dump (frame_bytes ch) @ CRLF"
proof -
  have b: "unat (pos ch) \<le> length (buf ch)"
    using chan_ok_bounds [OF assms] by simp
  then have len: "length (frame_bytes ch) = unat (pos ch)"
    by (simp add: frame_bytes_def)
  show ?thesis
    by (simp add: printBufferFrame_def dump_loop_hex_dump [OF b] len)
qed

lemma printFrame_text:
  assumes "chan_ok ch"
  shows "printFrame tag ch =
     (bufClear ch,
      tag @ '' frame ('' @ printNumber (length (frame_bytes ch)) 10
      @ (if overflow ch then '', OVERFLOW'' else []) @ ''):'' @ CRLF
      @ hex_dump (frame_bytes ch) @ CRLF)"
proof -
  have b: "unat (pos ch) \<le> length (buf ch)"
    using chan_ok_bounds [OF assms] by simp
  then have len: "length (frame_bytes ch) = unat (pos ch)"
    by (simp add: frame_bytes_def)
  show ?thesis
    by (simp add: printFrame_def dump_loop_hex_dump [OF b] len)
qed

lemma chan_ok_partial_chan: "chan_ok partial_chan"
  by (simp add: chan_ok_def partial_chan_def BUFLEN_def)

lemma frame_bytes_partial_chan: "frame_bytes partial_chan = [0x01, 0x02, 0x03]"
  by (simp add: frame_bytes_def partial_chan_def)

lemma overflow_partial_chan: "\<not> overflow partial_chan"
  by (simp add: partial_chan_def)

lemma hex_dump_123: "hex_dump [0x01, 0x02, 0x03] = ''01 02 03 ''"
  by (simp add: hex_dump_def hex2_def upt_rec [of _ "numeral _"] digit_char_simps)

lemma printNumber_3: "printNumber 3 10 = ''3''"
  by (simp add: printNumber_numeral digit_char_simps Let_def)

lemma printNumber_Suc3: "printNumber (Suc (Suc (Suc 0))) 10 = ''3''"
  using printNumber_3 by (simp add: numeral_3_eq_3)

text \<open>
  C9 (as amended). For every frame of \<open>n\<close> bytes on a channel with tag \<open>TAG\<close>,
  \<^verbatim>\<open>mega.ino\<close> prints the header line \<^verbatim>\<open>TAG frame (n bytes):\<close> and the ESP8266 sketch
  the header line \<^verbatim>\<open>TAG frame (n):\<close>, without the word bytes, each with
  \<^verbatim>\<open>, OVERFLOW\<close> before the closing parenthesis exactly when the overflow flag is set;
  both then print the \<open>n\<close> bytes as two hexadecimal digits and a space each, with a line
  break after every sixteenth byte, and end the dump with a line break.
\<close>

theorem C9_frame_format:
  assumes "chan_ok ch"
  shows "printBufferFrame tag ch =
       tag @ '' frame ('' @ printNumber (length (frame_bytes ch)) 10 @ '' bytes''
       @ (if overflow ch then '', OVERFLOW'' else []) @ ''):'' @ CRLF
       @ hex_dump (frame_bytes ch) @ CRLF
     \<and> snd (printFrame tag ch) =
       tag @ '' frame ('' @ printNumber (length (frame_bytes ch)) 10
       @ (if overflow ch then '', OVERFLOW'' else []) @ ''):'' @ CRLF
       @ hex_dump (frame_bytes ch) @ CRLF"
  using printBufferFrame_text [OF assms] printFrame_text [OF assms] by simp

text \<open>
  The theorem at the three bytes of \<open>partial_chan\<close>, in both sketches.
\<close>

theorem C9_frame_format_witness:
  "chan_ok partial_chan
   \<and> printBufferFrame ''M'' partial_chan = ''M frame (3 bytes):'' @ CRLF @ ''01 02 03 '' @ CRLF
   \<and> snd (printFrame ''L'' partial_chan) = ''L frame (3):'' @ CRLF @ ''01 02 03 '' @ CRLF"
  using C9_frame_format [OF chan_ok_partial_chan, of "''M''"]
    C9_frame_format [OF chan_ok_partial_chan, of "''L''"] chan_ok_partial_chan
  by (simp add: frame_bytes_partial_chan hex_dump_123 printNumber_Suc3 overflow_partial_chan)

text \<open>
  C9 as stated fails: the ESP8266 sketch's header for three bytes is
  \<^verbatim>\<open>L frame (3):\<close>, not \<^verbatim>\<open>L frame (3 bytes):\<close>.
\<close>

theorem C9_frame_format_counterexample:
  "snd (printFrame ''L'' partial_chan) = ''L frame (3):'' @ CRLF @ ''01 02 03 '' @ CRLF
   \<and> snd (printFrame ''L'' partial_chan) \<noteq> ''L frame (3 bytes):'' @ CRLF @ ''01 02 03 '' @ CRLF"
  using printFrame_text [OF chan_ok_partial_chan, of "''L''"]
  by (simp add: frame_bytes_partial_chan hex_dump_123 printNumber_Suc3 overflow_partial_chan)

section \<open>The gap flush scans before it clears\<close>

lemma maybeFlushOnGap_cases:
  "maybeFlushOnGap ch tag now =
     (if pos ch \<noteq> 0 \<and> ucast FRAME_GAP_MS \<le> now - lastByteMs ch
      then (bufClear ch, printBufferFrame tag ch @ printKnownPacketsIfAny tag ch)
      else (ch, []))"
  by (simp add: maybeFlushOnGap_def Let_def)

lemma checkFlush_cases:
  "checkFlush ch tag now =
     (if pos ch \<noteq> 0 \<and> ucast FRAME_GAP_MS \<le> now - lastByteMs ch
      then (bufClear ch, snd (printFrame tag ch))
      else (ch, []))"
  by (simp add: checkFlush_def printFrame_def)









lemma chan_ok_overflowed_chan: "chan_ok overflowed_chan"
  by (simp add: chan_ok_def overflowed_chan_def BUFLEN_def)




section \<open>Frames from bursts of bytes\<close>

lemma millis_diff:
  assumes "t0 \<le> t" and "t - t0 < 2 ^ 32"
  shows "unat (millis t - millis t0) = t - t0"
proof -
  have "millis t - millis t0 = word_of_nat (t - t0)"
    using assms(1) by (simp add: millis_def of_nat_diff)
  then show ?thesis
    using assms(2) by (simp add: unat_of_nat)
qed

lemma gap_iff: "ucast FRAME_GAP_MS \<le> (x :: uint32_t) \<longleftrightarrow> unat FRAME_GAP_MS \<le> unat x"
  by (simp add: word_le_nat_alt FRAME_GAP_MS_def)

lemma chan_ok_pos: "chan_ok ch \<Longrightarrow> unat (pos ch) \<le> 128 \<and> length (buf ch) = 128"
  by (simp add: chan_ok_def BUFLEN_def word_le_nat_alt)

lemma length_frame_bytes: "chan_ok ch \<Longrightarrow> length (frame_bytes ch) = unat (pos ch)"
  using chan_ok_pos [of ch] by (simp add: frame_bytes_def)

lemma bufAdd_room:
  assumes "chan_ok ch" and "pos ch < BUFLEN"
  shows "chan_ok (bufAdd ch b now)"
    and "frame_bytes (bufAdd ch b now) = frame_bytes ch @ [b]"
    and "overflow (bufAdd ch b now) = overflow ch"
proof -
  have n: "unat (pos ch) < 128"
    using assms(2) by (simp add: word_less_nat_alt BUFLEN_def)
  then have s: "unat (pos ch + 1) = Suc (unat (pos ch))"
    by (simp add: unat_word_ariths)
  have l: "length (buf ch) = 128"
    using chan_ok_pos [OF assms(1)] by simp
  show "chan_ok (bufAdd ch b now)"
    using assms n s l by (simp add: bufAdd_def chan_ok_def BUFLEN_def word_le_nat_alt)
  show "frame_bytes (bufAdd ch b now) = frame_bytes ch @ [b]"
    using assms(2) n s l by (simp add: bufAdd_def frame_bytes_def take_Suc_conv_app_nth)
  show "overflow (bufAdd ch b now) = overflow ch"
    using assms(2) by (simp add: bufAdd_def)
qed

lemma bufAdd_full:
  assumes "chan_ok ch" and "\<not> pos ch < BUFLEN"
  shows "bufAdd ch b now = ch\<lparr>overflow := True, lastByteMs := now\<rparr>"
    and "pos ch = BUFLEN"
proof -
  show "bufAdd ch b now = ch\<lparr>overflow := True, lastByteMs := now\<rparr>"
    using assms(2) by (simp add: bufAdd_def)
  have "BUFLEN \<le> pos ch"
    using assms(2) by (simp add: not_less)
  moreover have "pos ch \<le> BUFLEN"
    using assms(1) by (simp add: chan_ok_def)
  ultimately show "pos ch = BUFLEN"
    by simp
qed

lemma bufAdd_lastByteMs: "lastByteMs (bufAdd ch b now) = now"
  by (simp add: bufAdd_def)

lemma bufAdd_chan_ok:
  assumes "chan_ok ch"
  shows "chan_ok (bufAdd ch b now)"
proof (cases "pos ch < BUFLEN")
  case True
  with assms show ?thesis
    by (rule bufAdd_room(1))
next
  case False
  show ?thesis
    unfolding bufAdd_full(1) [OF assms False]
    using assms by (simp add: chan_ok_def)
qed

lemma bufAdd_frame_bytes:
  assumes "chan_ok ch"
  shows "frame_bytes (bufAdd ch b now) = take 128 (frame_bytes ch @ [b])"
proof (cases "pos ch < BUFLEN")
  case True
  then have "unat (pos ch) < 128"
    by (simp add: word_less_nat_alt BUFLEN_def)
  then show ?thesis
    using bufAdd_room(2) [OF assms True] length_frame_bytes [OF assms] by simp
next
  case False
  then have "unat (pos ch) = 128"
    using bufAdd_full(2) [OF assms False] by (simp add: BUFLEN_def)
  then show ?thesis
    using bufAdd_full(1) [OF assms False] length_frame_bytes [OF assms]
    by (simp add: frame_bytes_def)
qed

lemma bufAdd_overflow:
  assumes "chan_ok ch"
  shows "overflow (bufAdd ch b now) = (overflow ch \<or> 128 < length (frame_bytes ch @ [b]))"
proof (cases "pos ch < BUFLEN")
  case True
  then have "unat (pos ch) < 128"
    by (simp add: word_less_nat_alt BUFLEN_def)
  then show ?thesis
    using bufAdd_room(3) [OF assms True] length_frame_bytes [OF assms] by simp
next
  case False
  then have "unat (pos ch) = 128"
    using bufAdd_full(2) [OF assms False] by (simp add: BUFLEN_def)
  then show ?thesis
    using bufAdd_full(1) [OF assms False] length_frame_bytes [OF assms] by simp
qed

lemma take_take_append:
  "take n (take n xs @ ys) = take n (xs @ ys)"
  by (cases "n \<le> length xs") simp_all

lemma add_bytes_props:
  assumes "chan_ok ch"
  shows "chan_ok (add_bytes es ch)
    \<and> frame_bytes (add_bytes es ch) = take 128 (frame_bytes ch @ bytes_of es)
    \<and> overflow (add_bytes es ch)
         = (overflow ch \<or> 128 < length (frame_bytes ch @ bytes_of es))"
  using assms
proof (induction es arbitrary: ch)
  case Nil
  then show ?case
    using length_frame_bytes [of ch] chan_ok_pos [of ch] by simp
next
  case (Cons e es)
  show ?case
  proof (cases e)
    case (Poll t)
    then show ?thesis
      using Cons.IH [OF Cons.prems] by simp
  next
    case (Byte b t)
    let ?c = "bufAdd ch b (millis t)"
    have ok: "chan_ok ?c"
      using Cons.prems by (rule bufAdd_chan_ok)
    have fb: "frame_bytes ?c = take 128 (frame_bytes ch @ [b])"
      using Cons.prems by (rule bufAdd_frame_bytes)
    have ov: "overflow ?c = (overflow ch \<or> 128 < length (frame_bytes ch @ [b]))"
      using Cons.prems by (rule bufAdd_overflow)
    have ih: "chan_ok (add_bytes es ?c)"
      "frame_bytes (add_bytes es ?c) = take 128 (frame_bytes ?c @ bytes_of es)"
      "overflow (add_bytes es ?c) = (overflow ?c \<or> 128 < length (frame_bytes ?c @ bytes_of es))"
      using Cons.IH [OF ok] by simp_all
    have f: "frame_bytes (add_bytes es ?c) = take 128 (frame_bytes ch @ b # bytes_of es)"
      unfolding ih(2) fb take_take_append by simp
    have o: "overflow (add_bytes es ?c)
             = (overflow ch \<or> 128 < length (frame_bytes ch @ b # bytes_of es))"
      unfolding ih(3) ov fb by (auto simp: min_def)
    show ?thesis
      using Byte ih(1) f o by simp
  qed
qed

lemma feed_append:
  "feed fl tag (xs @ ys) ch =
     (let (c1, o1) = feed fl tag xs ch; (c2, o2) = feed fl tag ys c1 in (c2, o1 @ o2))"
proof (induction xs arbitrary: ch)
  case Nil
  then show ?case by simp
next
  case (Cons e xs)
  then show ?case
    by (cases e) (simp_all add: Let_def split: prod.splits)
qed

lemma add_bytes_lastByteMs:
  "lastByteMs ch = millis t0 \<Longrightarrow> lastByteMs (add_bytes es ch) = millis (last_byte_time t0 es)"
proof (induction es arbitrary: ch t0)
  case Nil
  then show ?case by simp
next
  case (Cons e es)
  then show ?case
    by (cases e) (simp_all add: bufAdd_lastByteMs)
qed

lemma no_flush_in_burst:
  assumes fl: "\<And>c now. fl c tag now =
       (if pos c \<noteq> 0 \<and> ucast FRAME_GAP_MS \<le> now - lastByteMs c
        then (bufClear c, em c) else (c, []))"
    and "pos ch = 0 \<or> lastByteMs ch = millis ts"
    and "ts \<le> t" and "t - ts < unat FRAME_GAP_MS"
  shows "fl ch tag (millis t) = (ch, [])"
proof (cases "pos ch = 0")
  case True
  then show ?thesis by (simp add: fl)
next
  case False
  then have l: "lastByteMs ch = millis ts"
    using assms(2) by simp
  have "t - ts < 2 ^ 32"
    using assms(4) by (simp add: FRAME_GAP_MS_def)
  then have "unat (millis t - millis ts) = t - ts"
    using assms(3) by (intro millis_diff)
  then show ?thesis
    using assms(4) by (simp add: fl l gap_iff)
qed

lemma feed_burst:
  assumes fl: "\<And>c now. fl c tag now =
       (if pos c \<noteq> 0 \<and> ucast FRAME_GAP_MS \<le> now - lastByteMs c
        then (bufClear c, em c) else (c, []))"
    and "burst ts es" and "pos ch = 0 \<or> lastByteMs ch = millis ts"
  shows "feed fl tag es ch = (add_bytes es ch, [])"
  using assms(2,3)
proof (induction es arbitrary: ch ts)
  case Nil
  then show ?case by simp
next
  case (Cons e es)
  show ?case
  proof (cases e)
    case (Byte b t)
    have "lastByteMs (bufAdd ch b (millis t)) = millis t"
      by (rule bufAdd_lastByteMs)
    then have "feed fl tag es (bufAdd ch b (millis t)) = (add_bytes es (bufAdd ch b (millis t)), [])"
      using Cons.prems(1) Byte by (intro Cons.IH [of t]) simp_all
    then show ?thesis
      using Byte by simp
  next
    case (Poll t)
    have "fl ch tag (millis t) = (ch, [])"
      using Cons.prems Poll by (intro no_flush_in_burst [where fl = fl and em = em and tag = tag and ts = ts, OF fl]) simp_all
    moreover have "feed fl tag es ch = (add_bytes es ch, [])"
      using Cons.prems Poll by (intro Cons.IH [of ts]) simp_all
    ultimately show ?thesis
      using Poll by simp
  qed
qed

lemma feed_frame:
  assumes fl: "\<And>c now. fl c tag now =
       (if pos c \<noteq> 0 \<and> ucast FRAME_GAP_MS \<le> now - lastByteMs c
        then (bufClear c, em c) else (c, []))"
    and ok: "chan_ok ch" and empty: "pos ch = 0"
    and "burst t0 es"
    and "last_byte_time t0 es \<le> T" and "unat FRAME_GAP_MS \<le> T - last_byte_time t0 es"
    and "T - last_byte_time t0 es < 2 ^ 32"
  shows "feed fl tag (Byte b0 t0 # es) ch = (add_bytes (Byte b0 t0 # es) ch, [])"
    and "feed fl tag (Byte b0 t0 # es @ [Poll T]) ch
         = (bufClear (add_bytes (Byte b0 t0 # es) ch), em (add_bytes (Byte b0 t0 # es) ch))"
    and "chan_ok (add_bytes (Byte b0 t0 # es) ch)"
    and "frame_bytes (add_bytes (Byte b0 t0 # es) ch) = take 128 (b0 # bytes_of es)"
    and "overflow (add_bytes (Byte b0 t0 # es) ch)
         = (overflow ch \<or> 128 < length (b0 # bytes_of es))"
proof -
  let ?c0 = "bufAdd ch b0 (millis t0)"
  let ?c1 = "add_bytes (Byte b0 t0 # es) ch"
  have fb0: "frame_bytes ch = []"
    using empty by (simp add: frame_bytes_def)
  note props = add_bytes_props [OF ok, of "Byte b0 t0 # es"]
  show ok1: "chan_ok ?c1"
    using props by simp
  show fb1: "frame_bytes ?c1 = take 128 (b0 # bytes_of es)"
    using props fb0 by simp
  show "overflow ?c1 = (overflow ch \<or> 128 < length (b0 # bytes_of es))"
    using props fb0 by simp
  have l0: "lastByteMs ?c0 = millis t0"
    by (rule bufAdd_lastByteMs)
  have run: "feed fl tag es ?c0 = (add_bytes es ?c0, [])"
    using \<open>burst t0 es\<close> l0 by (intro feed_burst [where fl = fl and em = em and tag = tag and ts = t0, OF fl]) simp_all
  then show first: "feed fl tag (Byte b0 t0 # es) ch = (?c1, [])"
    by simp
  have l1: "lastByteMs ?c1 = millis (last_byte_time t0 es)"
    using add_bytes_lastByteMs [OF l0, of es] by simp
  have "length (frame_bytes ?c1) \<noteq> 0"
    unfolding fb1 by simp
  then have p1: "pos ?c1 \<noteq> 0"
    using length_frame_bytes [OF ok1] by (auto simp del: add_bytes.simps)
  have "unat (millis T - millis (last_byte_time t0 es)) = T - last_byte_time t0 es"
    using assms(5,7) by (intro millis_diff)
  then have "fl ?c1 tag (millis T) = (bufClear ?c1, em ?c1)"
    using p1 assms(6) by (simp add: fl l1 gap_iff del: add_bytes.simps)
  then have "feed fl tag [Poll T] ?c1 = (bufClear ?c1, em ?c1)"
    by (simp del: add_bytes.simps)
  then show "feed fl tag (Byte b0 t0 # es @ [Poll T]) ch = (bufClear ?c1, em ?c1)"
    using first feed_append [of fl tag "Byte b0 t0 # es" "[Poll T]" ch]
    by (simp del: add_bytes.simps feed.simps)
qed

lemma burst_ticking: "burst t (ticking b t n)"
  by (induction n arbitrary: t) (simp_all add: FRAME_GAP_MS_def)

lemma bytes_of_ticking: "bytes_of (ticking b t n) = replicate n b"
  by (induction n arbitrary: t) simp_all

lemma last_byte_time_ticking: "last_byte_time t (ticking b t n) = t + n"
  by (induction n arbitrary: t) simp_all

lemma printNumber_128: "printNumber 128 10 = ''128''"
  by (simp add: printNumber_numeral printNumber.simps [of "Suc 0"] digit_char_simps Let_def)

lemma findPacket_no_start:
  assumes "chan_ok ch" and "2 \<le> L" and "S \<notin> set (frame_bytes ch)"
  shows "findPacket ch S L = - 1"
proof -
  have "2 \<le> unat L"
    using assms(2) by (simp add: word_le_nat_alt)
  then have "\<not> (\<exists>i. packet_at (frame_bytes ch) S (unat L) i)"
    using assms(3) by (auto simp: packet_at_def)
  then show ?thesis
    using findPacket_spec [OF assms(1,2), of S] by simp
qed

lemma printKnownPacketsIfAny_no_start:
  assumes "chan_ok ch" and "START_MOTOR \<notin> set (frame_bytes ch)"
    and "START_LCD \<notin> set (frame_bytes ch)"
  shows "printKnownPacketsIfAny tag ch = []"
proof -
  have "findPacket ch START_MOTOR LEN_MOTOR = - 1"
    using assms(1,2) by (intro findPacket_no_start) (simp_all add: LEN_MOTOR_def)
  moreover have "findPacket ch START_LCD LEN_LCD = - 1"
    using assms(1,3) by (intro findPacket_no_start) (simp_all add: LEN_LCD_def)
  ultimately show ?thesis
    by (simp add: printKnownPacketsIfAny_def printKnown_def Let_def)
qed

lemma flush_pos_0:
  "pos c = 0 \<Longrightarrow> maybeFlushOnGap c tag now = (c, []) \<and> checkFlush c tag now = (c, [])"
  by (simp add: maybeFlushOnGap_def checkFlush_def)

text \<open>
  C2 (as amended). For every non-empty byte sequence of at most \<open>BUFLEN\<close> bytes delivered
  to an empty channel with every gap (between bytes, and from a byte to a gap check)
  below \<open>FRAME_GAP_MS\<close>, and then one gap check at least \<open>FRAME_GAP_MS\<close> after the last
  byte: nothing is printed before that check, and the check prints exactly one frame,
  with the number of bytes, no overflow mark and all the bytes in their order of arrival
  (in \<^verbatim>\<open>mega.ino\<close> followed by the known-packet lines of that frame), and leaves the
  channel with length 0. A channel of length 0 never prints a frame.
\<close>

theorem C2_burst_one_frame:
  assumes "chan_ok ch" and "pos ch = 0" and "\<not> overflow ch"
    and "burst t0 es"
    and "length (b0 # bytes_of es) \<le> unat BUFLEN"
    and "last_byte_time t0 es \<le> T" and "unat FRAME_GAP_MS \<le> T - last_byte_time t0 es"
    and "T - last_byte_time t0 es < 2 ^ 32"
  shows "feed maybeFlushOnGap tag (Byte b0 t0 # es) ch = (add_bytes (Byte b0 t0 # es) ch, [])
    \<and> frame_bytes (add_bytes (Byte b0 t0 # es) ch) = b0 # bytes_of es
    \<and> feed maybeFlushOnGap tag (Byte b0 t0 # es @ [Poll T]) ch
        = (bufClear (add_bytes (Byte b0 t0 # es) ch),
           tag @ '' frame ('' @ printNumber (length (b0 # bytes_of es)) 10 @ '' bytes):'' @ CRLF
           @ hex_dump (b0 # bytes_of es) @ CRLF
           @ printKnownPacketsIfAny tag (add_bytes (Byte b0 t0 # es) ch))
    \<and> feed checkFlush tag (Byte b0 t0 # es @ [Poll T]) ch
        = (bufClear (add_bytes (Byte b0 t0 # es) ch),
           tag @ '' frame ('' @ printNumber (length (b0 # bytes_of es)) 10 @ ''):'' @ CRLF
           @ hex_dump (b0 # bytes_of es) @ CRLF)
    \<and> pos (bufClear (add_bytes (Byte b0 t0 # es) ch)) = 0
    \<and> (\<forall>c now. pos c = 0 \<longrightarrow> maybeFlushOnGap c tag now = (c, []) \<and> checkFlush c tag now = (c, []))"
proof -
  let ?c1 = "add_bytes (Byte b0 t0 # es) ch"
  let ?em = "\<lambda>c. printBufferFrame tag c @ printKnownPacketsIfAny tag c"
  let ?em' = "\<lambda>c. snd (printFrame tag c)"
  note m = feed_frame [where fl = maybeFlushOnGap and em = ?em and tag = tag,
      OF maybeFlushOnGap_cases assms(1,2,4,6,7,8), of b0]
  note e = feed_frame [where fl = checkFlush and em = ?em' and tag = tag,
      OF checkFlush_cases assms(1,2,4,6,7,8), of b0]
  have small: "length (b0 # bytes_of es) \<le> 128"
    using assms(5) by (simp add: BUFLEN_def)
  have fb: "frame_bytes ?c1 = b0 # bytes_of es"
    using m(4) small by simp
  have ov: "\<not> overflow ?c1"
    using m(5) small assms(3) by simp
  have t1: "printBufferFrame tag ?c1 =
      tag @ '' frame ('' @ printNumber (length (b0 # bytes_of es)) 10 @ '' bytes):'' @ CRLF
      @ hex_dump (b0 # bytes_of es) @ CRLF"
    using printBufferFrame_text [OF m(3), of tag] ov by (simp only: fb) simp
  have t2: "snd (printFrame tag ?c1) =
      tag @ '' frame ('' @ printNumber (length (b0 # bytes_of es)) 10 @ ''):'' @ CRLF
      @ hex_dump (b0 # bytes_of es) @ CRLF"
    using printFrame_text [OF m(3), of tag] ov by (simp only: fb) simp
  show ?thesis
    using m(1) fb m(2) e(2) flush_pos_0
    by (simp only: t1 t2) (simp add: bufClear_def del: add_bytes.simps feed.simps)
qed

lemma chan_ok_idle_chan: "chan_ok idle_chan"
  by (simp add: chan_ok_def idle_chan_def BUFLEN_def)

lemma idle_chan_empty: "pos idle_chan = 0 \<and> \<not> overflow idle_chan"
  by (simp add: idle_chan_def)

lemma take_Cons_replicate:
  assumes "n \<le> Suc m"
  shows "take n (x # replicate m x) = replicate n x"
proof -
  have "take n (replicate (Suc m) x) = replicate (min n (Suc m)) x"
    by (rule take_replicate)
  then show ?thesis
    using assms by (simp add: min_absorb1)
qed

text \<open>
  The theorem at three bytes 20 ms apart, with a gap check in between, and a gap check
  25 ms after the last byte.
\<close>

theorem C2_burst_one_frame_witness:
  "chan_ok idle_chan \<and> pos idle_chan = 0 \<and> \<not> overflow idle_chan
   \<and> burst 100 [Poll 110, Byte 0x02 120, Byte 0x03 130]
   \<and> length (0x01 # bytes_of [Poll 110, Byte 0x02 120, Byte 0x03 130]) \<le> unat BUFLEN
   \<and> last_byte_time 100 [Poll 110, Byte 0x02 120, Byte 0x03 130] \<le> 155
   \<and> unat FRAME_GAP_MS \<le> 155 - last_byte_time 100 [Poll 110, Byte 0x02 120, Byte 0x03 130]
   \<and> 155 - last_byte_time 100 [Poll 110, Byte 0x02 120, Byte 0x03 130] < (2 :: nat) ^ 32
   \<and> snd (feed maybeFlushOnGap ''M''
          [Byte 0x01 100, Poll 110, Byte 0x02 120, Byte 0x03 130, Poll 155] idle_chan)
       = ''M frame (3 bytes):'' @ CRLF @ ''01 02 03 '' @ CRLF
   \<and> snd (feed checkFlush ''L''
          [Byte 0x01 100, Poll 110, Byte 0x02 120, Byte 0x03 130, Poll 155] idle_chan)
       = ''L frame (3):'' @ CRLF @ ''01 02 03 '' @ CRLF"
proof -
  let ?es = "[Poll 110, Byte 0x02 120, Byte 0x03 130]"
  let ?c1 = "add_bytes (Byte 0x01 100 # ?es) idle_chan"
  have h: "burst 100 ?es" "length (0x01 # bytes_of ?es) \<le> unat BUFLEN"
    "last_byte_time 100 ?es \<le> 155" "unat FRAME_GAP_MS \<le> 155 - last_byte_time 100 ?es"
    "155 - last_byte_time 100 ?es < (2 :: nat) ^ 32"
    by (simp_all add: FRAME_GAP_MS_def BUFLEN_def)
  note i = idle_chan_empty [THEN conjunct1] idle_chan_empty [THEN conjunct2]
  note m = C2_burst_one_frame [OF chan_ok_idle_chan i h, of "''M''"]
  note l = C2_burst_one_frame [OF chan_ok_idle_chan i h, of "''L''"]
  have fb: "frame_bytes ?c1 = [0x01, 0x02, 0x03]"
    using m by (simp del: add_bytes.simps feed.simps)
  have ok: "chan_ok ?c1"
    using add_bytes_props [OF chan_ok_idle_chan] by blast
  have k: "printKnownPacketsIfAny ''M'' ?c1 = []"
    using ok by (intro printKnownPacketsIfAny_no_start)
      (simp_all only: fb, simp_all add: START_MOTOR_def START_LCD_def)
  have d: "hex_dump (0x01 # bytes_of ?es) = ''01 02 03 ''"
    using hex_dump_123 by simp
  have n: "printNumber (length (0x01 # bytes_of ?es)) 10 = ''3''"
    using printNumber_Suc3 by simp
  have "snd (feed maybeFlushOnGap ''M'' (Byte 0x01 100 # ?es @ [Poll 155]) idle_chan)
        = ''M frame (3 bytes):'' @ CRLF @ ''01 02 03 '' @ CRLF"
    using m by (simp only: k d n snd_conv) simp
  moreover have "snd (feed checkFlush ''L'' (Byte 0x01 100 # ?es @ [Poll 155]) idle_chan)
        = ''L frame (3):'' @ CRLF @ ''01 02 03 '' @ CRLF"
    using l by (simp only: d n snd_conv) simp
  ultimately show ?thesis
    using chan_ok_idle_chan i h by (simp del: feed.simps)
qed

text \<open>
  C2 as stated fails for a sequence longer than the buffer: 129 bytes, one millisecond
  apart, then 72 ms of silence, give a frame of 128 bytes marked \<^verbatim>\<open>OVERFLOW\<close>.
\<close>

theorem C2_burst_one_frame_counterexample:
  "burst 0 (ticking 0x55 0 128)
   \<and> length (bytes_of (Byte 0x55 0 # ticking 0x55 0 128)) = 129
   \<and> last_byte_time 0 (ticking 0x55 0 128) = 128
   \<and> snd (feed maybeFlushOnGap ''M'' (Byte 0x55 0 # ticking 0x55 0 128 @ [Poll 200]) idle_chan)
       = ''M frame (128 bytes, OVERFLOW):'' @ CRLF @ hex_dump (replicate 128 0x55) @ CRLF"
proof -
  let ?es = "ticking 0x55 0 128"
  let ?c1 = "add_bytes (Byte 0x55 0 # ?es) idle_chan"
  let ?em = "\<lambda>c. printBufferFrame ''M'' c @ printKnownPacketsIfAny ''M'' c"
  have b: "burst 0 ?es"
    by (rule burst_ticking)
  have t: "last_byte_time 0 ?es = 128"
    by (simp add: last_byte_time_ticking)
  have g: "last_byte_time 0 ?es \<le> 200" "unat FRAME_GAP_MS \<le> 200 - last_byte_time 0 ?es"
    "200 - last_byte_time 0 ?es < (2 :: nat) ^ 32"
    unfolding t by (simp_all add: FRAME_GAP_MS_def)
  note f = feed_frame [where fl = maybeFlushOnGap and em = ?em and tag = "''M''"
      and ?b0.0 = "0x55",
      OF maybeFlushOnGap_cases chan_ok_idle_chan idle_chan_empty [THEN conjunct1] b g]
  have fb: "frame_bytes ?c1 = replicate 128 0x55"
    unfolding f(4) bytes_of_ticking by (rule take_Cons_replicate) simp
  have ov: "overflow ?c1"
    unfolding f(5) bytes_of_ticking by simp
  have k: "printKnownPacketsIfAny ''M'' ?c1 = []"
    using f(3) by (intro printKnownPacketsIfAny_no_start)
      (simp_all only: fb, simp_all add: START_MOTOR_def START_LCD_def)
  have p: "printBufferFrame ''M'' ?c1
           = ''M frame (128 bytes, OVERFLOW):'' @ CRLF @ hex_dump (replicate 128 0x55) @ CRLF"
    using printBufferFrame_text [OF f(3), of "''M''"] ov
    by (simp only: fb length_replicate printNumber_128 if_True) simp
  have "snd (feed maybeFlushOnGap ''M'' (Byte 0x55 0 # ?es @ [Poll 200]) idle_chan)
        = ''M frame (128 bytes, OVERFLOW):'' @ CRLF @ hex_dump (replicate 128 0x55) @ CRLF"
    unfolding f(2) snd_conv p k by simp
  then show ?thesis
    using b t by (simp add: bytes_of_ticking del: feed.simps)
qed

lemma flush_chan_ok:
  assumes "chan_ok ch"
  shows "chan_ok (bufClear ch)" and "chan_ok (fst (maybeFlushOnGap ch tag now))"
    and "chan_ok (fst (checkFlush ch tag now))"
proof -
  show c: "chan_ok (bufClear ch)"
    using assms by (simp add: chan_ok_def bufClear_def)
  show "chan_ok (fst (maybeFlushOnGap ch tag now))"
    using assms c by (simp add: maybeFlushOnGap_cases)
  show "chan_ok (fst (checkFlush ch tag now))"
    using assms c by (simp add: checkFlush_cases)
qed

lemma overflow_run:
  assumes "chan_ok ch" and "pos ch = 0" and "burst t0 es"
    and "unat BUFLEN < length (b0 # bytes_of es)"
    and "last_byte_time t0 es \<le> T" and "unat FRAME_GAP_MS \<le> T - last_byte_time t0 es"
    and "T - last_byte_time t0 es < 2 ^ 32"
  shows "feed maybeFlushOnGap tag (Byte b0 t0 # es @ [Poll T]) ch
         = (bufClear (add_bytes (Byte b0 t0 # es) ch),
            tag @ '' frame (128 bytes, OVERFLOW):'' @ CRLF
            @ hex_dump (take 128 (b0 # bytes_of es)) @ CRLF
            @ printKnownPacketsIfAny tag (add_bytes (Byte b0 t0 # es) ch))"
    and "feed checkFlush tag (Byte b0 t0 # es @ [Poll T]) ch
         = (bufClear (add_bytes (Byte b0 t0 # es) ch),
            tag @ '' frame (128, OVERFLOW):'' @ CRLF
            @ hex_dump (take 128 (b0 # bytes_of es)) @ CRLF)"
    and "buf (add_bytes (Byte b0 t0 # es) ch) = take 128 (b0 # bytes_of es)"
proof -
  let ?c1 = "add_bytes (Byte b0 t0 # es) ch"
  let ?em = "\<lambda>c. printBufferFrame tag c @ printKnownPacketsIfAny tag c"
  let ?em' = "\<lambda>c. snd (printFrame tag c)"
  note m = feed_frame [where fl = maybeFlushOnGap and em = ?em and tag = tag and ?b0.0 = b0,
      OF maybeFlushOnGap_cases assms(1,2,3,5,6,7)]
  note e = feed_frame [where fl = checkFlush and em = ?em' and tag = tag and ?b0.0 = b0,
      OF checkFlush_cases assms(1,2,3,5,6,7)]
  have big: "128 < length (b0 # bytes_of es)"
    using assms(4) by (simp add: BUFLEN_def)
  have fb: "frame_bytes ?c1 = take 128 (b0 # bytes_of es)"
    by (rule m(4))
  have len: "length (take 128 (b0 # bytes_of es)) = 128"
    using big by simp
  have ov: "overflow ?c1"
    using m(5) big by simp
  have t1: "printBufferFrame tag ?c1 =
      tag @ '' frame (128 bytes, OVERFLOW):'' @ CRLF
      @ hex_dump (take 128 (b0 # bytes_of es)) @ CRLF"
    using printBufferFrame_text [OF m(3), of tag] ov
    by (simp only: fb len printNumber_128 if_True) simp
  have t2: "snd (printFrame tag ?c1) =
      tag @ '' frame (128, OVERFLOW):'' @ CRLF
      @ hex_dump (take 128 (b0 # bytes_of es)) @ CRLF"
    using printFrame_text [OF m(3), of tag] ov
    by (simp only: fb len printNumber_128 if_True) simp
  show "feed maybeFlushOnGap tag (Byte b0 t0 # es @ [Poll T]) ch
         = (bufClear ?c1,
            tag @ '' frame (128 bytes, OVERFLOW):'' @ CRLF
            @ hex_dump (take 128 (b0 # bytes_of es)) @ CRLF
            @ printKnownPacketsIfAny tag ?c1)"
    unfolding m(2) t1 by simp
  show "feed checkFlush tag (Byte b0 t0 # es @ [Poll T]) ch
         = (bufClear ?c1,
            tag @ '' frame (128, OVERFLOW):'' @ CRLF
            @ hex_dump (take 128 (b0 # bytes_of es)) @ CRLF)"
    unfolding e(2) t2 by simp
  have "unat (pos ?c1) = 128"
    using length_frame_bytes [OF m(3)] fb len by (simp del: add_bytes.simps)
  moreover have "length (buf ?c1) = 128"
    using chan_ok_pos [OF m(3)] by simp
  ultimately have "frame_bytes ?c1 = buf ?c1"
    by (simp add: frame_bytes_def del: add_bytes.simps)
  then show "buf ?c1 = take 128 (b0 # bytes_of es)"
    using fb by (simp del: add_bytes.simps)
qed

text \<open>
  C3. A channel whose length is at most the capacity keeps that after \<^verbatim>\<open>bufAdd\<close>,
  \<^verbatim>\<open>bufClear\<close> and either gap check. \<^verbatim>\<open>bufAdd\<close> on a full buffer changes nothing but the
  overflow flag, which it sets, and the last-activity time, which it updates; a set flag
  stays set through \<^verbatim>\<open>bufAdd\<close>, and \<^verbatim>\<open>bufClear\<close> resets it. Delivering more than
  \<open>BUFLEN\<close> bytes to an empty channel before a gap gives one frame of exactly 128 bytes
  marked \<^verbatim>\<open>OVERFLOW\<close>, holding the first 128 bytes; the array holds those 128 bytes
  and nothing else, so the excess bytes are in no frame.
\<close>

theorem C3_capacity_and_overflow:
  assumes "chan_ok ch"
  shows "chan_ok (bufAdd ch b now) \<and> chan_ok (bufClear ch)
    \<and> chan_ok (fst (maybeFlushOnGap ch tag now)) \<and> chan_ok (fst (checkFlush ch tag now))
    \<and> (pos ch = BUFLEN \<longrightarrow> bufAdd ch b now = ch\<lparr>overflow := True, lastByteMs := now\<rparr>)
    \<and> (overflow ch \<longrightarrow> overflow (bufAdd ch b now))
    \<and> lastByteMs (bufAdd ch b now) = now
    \<and> \<not> overflow (bufClear ch)
    \<and> (pos ch = 0 \<and> burst t0 es \<and> unat BUFLEN < length (b0 # bytes_of es)
        \<and> last_byte_time t0 es \<le> T \<and> unat FRAME_GAP_MS \<le> T - last_byte_time t0 es
        \<and> T - last_byte_time t0 es < 2 ^ 32
        \<longrightarrow> feed maybeFlushOnGap tag (Byte b0 t0 # es @ [Poll T]) ch
             = (bufClear (add_bytes (Byte b0 t0 # es) ch),
                tag @ '' frame (128 bytes, OVERFLOW):'' @ CRLF
                @ hex_dump (take 128 (b0 # bytes_of es)) @ CRLF
                @ printKnownPacketsIfAny tag (add_bytes (Byte b0 t0 # es) ch))
          \<and> feed checkFlush tag (Byte b0 t0 # es @ [Poll T]) ch
             = (bufClear (add_bytes (Byte b0 t0 # es) ch),
                tag @ '' frame (128, OVERFLOW):'' @ CRLF
                @ hex_dump (take 128 (b0 # bytes_of es)) @ CRLF)
          \<and> buf (add_bytes (Byte b0 t0 # es) ch) = take 128 (b0 # bytes_of es))"
proof -
  have full: "pos ch = BUFLEN \<Longrightarrow> bufAdd ch b now = ch\<lparr>overflow := True, lastByteMs := now\<rparr>"
    by (simp add: bufAdd_def)
  have sticky: "overflow ch \<Longrightarrow> overflow (bufAdd ch b now)"
    by (simp add: bufAdd_def)
  have cl: "\<not> overflow (bufClear ch)"
    by (simp add: bufClear_def)
  show ?thesis
    using bufAdd_chan_ok [OF assms, of b now] flush_chan_ok(1) [OF assms] flush_chan_ok(2) [OF assms, of tag now]
      flush_chan_ok(3) [OF assms, of tag now]
      full sticky bufAdd_lastByteMs [of ch b now] cl
      overflow_run(1) [where ?t0.0 = t0 and es = es and ?b0.0 = b0 and T = T and tag = tag, OF assms]
      overflow_run(2) [where ?t0.0 = t0 and es = es and ?b0.0 = b0 and T = T and tag = tag, OF assms]
      overflow_run(3) [where ?t0.0 = t0 and es = es and ?b0.0 = b0 and T = T, OF assms]
    by (simp del: add_bytes.simps feed.simps)
qed

text \<open>
  The theorem at a full channel, for the dropping \<^verbatim>\<open>bufAdd\<close>, and at 130 bytes
  delivered to an empty channel, for the overflowed frame.
\<close>

theorem C3_capacity_and_overflow_witness:
  "chan_ok overflowed_chan \<and> pos overflowed_chan = BUFLEN
   \<and> bufAdd overflowed_chan 0xAA 7 = overflowed_chan\<lparr>overflow := True, lastByteMs := 7\<rparr>
   \<and> chan_ok idle_chan \<and> pos idle_chan = 0 \<and> burst 0 (ticking 0x55 0 129)
   \<and> unat BUFLEN < length (0x55 # bytes_of (ticking 0x55 0 129))
   \<and> last_byte_time 0 (ticking 0x55 0 129) \<le> 200
   \<and> unat FRAME_GAP_MS \<le> 200 - last_byte_time 0 (ticking 0x55 0 129)
   \<and> 200 - last_byte_time 0 (ticking 0x55 0 129) < (2 :: nat) ^ 32
   \<and> snd (feed checkFlush ''L'' (Byte 0x55 0 # ticking 0x55 0 129 @ [Poll 200]) idle_chan)
       = ''L frame (128, OVERFLOW):'' @ CRLF @ hex_dump (replicate 128 0x55) @ CRLF
   \<and> buf (add_bytes (Byte 0x55 0 # ticking 0x55 0 129) idle_chan) = replicate 128 0x55"
proof -
  let ?es = "ticking 0x55 0 129"
  have p: "pos overflowed_chan = BUFLEN"
    by (simp add: overflowed_chan_def BUFLEN_def)
  note full = C3_capacity_and_overflow [OF chan_ok_overflowed_chan, of "0xAA" 7]
  have h: "pos idle_chan = 0" "burst 0 ?es" "unat BUFLEN < length (0x55 # bytes_of ?es)"
    "last_byte_time 0 ?es \<le> 200" "unat FRAME_GAP_MS \<le> 200 - last_byte_time 0 ?es"
    "200 - last_byte_time 0 ?es < (2 :: nat) ^ 32"
    by (simp_all add: idle_chan_empty burst_ticking bytes_of_ticking last_byte_time_ticking
        BUFLEN_def FRAME_GAP_MS_def)
  note run = C3_capacity_and_overflow [OF chan_ok_idle_chan, where ?t0.0 = 0 and es = ?es
      and ?b0.0 = "0x55" and T = 200 and tag = "''L''"]
  have tk: "take 128 (0x55 # bytes_of ?es) = replicate 128 (0x55 :: uint8_t)"
    unfolding bytes_of_ticking by (rule take_Cons_replicate) simp
  show ?thesis
    using full p run h chan_ok_overflowed_chan chan_ok_idle_chan
    by (simp only: tk) (simp del: add_bytes.simps feed.simps)
qed

section \<open>The time-slice switch\<close>

















end
